theory Spec2Isabelle
  imports Main
begin

section \<open>The path functions of \<^verbatim>\<open>os.path\<close> that the module calls\<close>

text \<open>
  The module \<^verbatim>\<open>scripts/__init__.py\<close> computes its constants with
  \<^verbatim>\<open>os.path.dirname\<close>, \<^verbatim>\<open>os.path.join\<close> and \<^verbatim>\<open>os.path.abspath\<close>. MMT runs on
  POSIX systems, where \<^verbatim>\<open>os.path\<close> is CPython's \<^verbatim>\<open>posixpath\<close>; the definitions
  below follow that module statement by statement. A path is a \<^typ>\<open>string\<close>.
\<close>

definition sep :: char where
  "sep = CHR ''/''"

definition pardir :: string where
  "pardir = ''..''"

definition curdir :: string where
  "curdir = ''.''"

text \<open>\<^verbatim>\<open>s.startswith(pre)\<close> and \<^verbatim>\<open>s.endswith(c)\<close> for a one-character suffix.\<close>

definition startswith :: "string \<Rightarrow> string \<Rightarrow> bool" where
  "startswith s pre = (take (length pre) s = pre)"

definition endswith_sep :: "string \<Rightarrow> bool" where
  "endswith_sep s = (s \<noteq> [] \<and> last s = sep)"

text \<open>\<^verbatim>\<open>posixpath.isabs(s)\<close>: \<^verbatim>\<open>return s.startswith('/')\<close>.\<close>

definition isabs :: "string \<Rightarrow> bool" where
  "isabs s = startswith s [sep]"

text \<open>
  \<^verbatim>\<open>posixpath.join(a, b)\<close> for one further component, as every call of the module has:
  \<^verbatim>\<open>
    path = a
    if b.startswith('/'):                    path = b
    elif path == '' or path.endswith('/'):   path += b
    else:                                    path += '/' + b
    return path
  \<close>
\<close>

definition path_join :: "string \<Rightarrow> string \<Rightarrow> string" where
  "path_join a b =
     (if startswith b [sep] then b
      else if a = [] \<or> endswith_sep a then a @ b
      else a @ [sep] @ b)"

text \<open>
  \<^verbatim>\<open>p.rfind('/')\<close>: the highest index holding the character, or \<open>-1\<close>. What is left of
  the reversed string once the characters after the last separator are dropped has
  exactly that index plus one characters.
\<close>

definition rfind :: "char \<Rightarrow> string \<Rightarrow> int" where
  "rfind c p = int (length (dropWhile (\<lambda>x. x \<noteq> c) (rev p))) - 1"

text \<open>\<^verbatim>\<open>head.rstrip('/')\<close>.\<close>

definition rstrip_sep :: "string \<Rightarrow> string" where
  "rstrip_sep s = rev (dropWhile (\<lambda>x. x = sep) (rev s))"

text \<open>
  \<^verbatim>\<open>posixpath.dirname(p)\<close>:
  \<^verbatim>\<open>
    i = p.rfind('/') + 1
    head = p[:i]
    if head and head != '/'*len(head):
        head = head.rstrip('/')
    return head
  \<close>
\<close>

definition dirname :: "string \<Rightarrow> string" where
  "dirname p =
     (let i = rfind sep p + 1;
          head = take (nat i) p
      in if head \<noteq> [] \<and> head \<noteq> replicate (length head) sep
         then rstrip_sep head else head)"

text \<open>\<^verbatim>\<open>path.split('/')\<close>: the pieces between the separators, empty pieces kept.\<close>

fun split_sep :: "string \<Rightarrow> string list" where
  "split_sep [] = [[]]"
| "split_sep (c # cs) =
     (if c = sep then [] # split_sep cs
      else (c # hd (split_sep cs)) # tl (split_sep cs))"

text \<open>\<^verbatim>\<open>'/'.join(comps)\<close>.\<close>

fun sep_join :: "string list \<Rightarrow> string" where
  "sep_join [] = []"
| "sep_join [x] = x"
| "sep_join (x # y # ys) = x @ sep # sep_join (y # ys)"

text \<open>
  One round of the loop of \<^verbatim>\<open>posixpath.normpath\<close> over the components, with the list
  \<^verbatim>\<open>new_comps\<close> built so far (the loop variable \<^verbatim>\<open>comp\<close> is \<open>c\<close> here):
  \<^verbatim>\<open>
    if comp in ('', '.'):
        continue
    if (comp != '..' or (not initial_slashes and not new_comps) or
         (new_comps and new_comps[-1] == '..')):
        new_comps.append(comp)
    elif new_comps:
        new_comps.pop()
  \<close>
\<close>

definition normpath_step :: "nat \<Rightarrow> string list \<Rightarrow> string \<Rightarrow> string list" where
  "normpath_step initial_slashes new_comps c =
     (if c = [] \<or> c = curdir then new_comps
      else if c \<noteq> pardir \<or> (initial_slashes = 0 \<and> new_comps = [])
              \<or> (new_comps \<noteq> [] \<and> last new_comps = pardir)
           then new_comps @ [c]
      else if new_comps \<noteq> [] then butlast new_comps
      else new_comps)"

text \<open>
  \<^verbatim>\<open>posixpath.normpath(path)\<close>:
  \<^verbatim>\<open>
    if path == '':
        return '.'
    initial_slashes = path.startswith('/')
    if (initial_slashes and
        path.startswith('//') and not path.startswith('///')):
        initial_slashes = 2
    comps = path.split('/')
    new_comps = []
    for comp in comps: ...
    comps = new_comps
    path = '/'.join(comps)
    if initial_slashes:
        path = '/'*initial_slashes + path
    return path or '.'
  \<close>
\<close>

definition initial_slashes_of :: "string \<Rightarrow> nat" where
  "initial_slashes_of path =
     (if startswith path [sep] then
        (if startswith path [sep, sep] \<and> \<not> startswith path [sep, sep, sep] then 2 else 1)
      else 0)"

definition normpath :: "string \<Rightarrow> string" where
  "normpath path =
     (if path = [] then curdir
      else
        let initial_slashes = initial_slashes_of path;
            comps = split_sep path;
            new_comps = foldl (normpath_step initial_slashes) [] comps;
            path' = replicate initial_slashes sep @ sep_join new_comps
        in if path' = [] then curdir else path')"

text \<open>
  \<^verbatim>\<open>posixpath.abspath(path)\<close>:
  \<^verbatim>\<open>
    if not isabs(path):
        cwd = os.getcwd()
        path = join(cwd, path)
    return normpath(path)
  \<close>
  The working directory that \<^verbatim>\<open>os.getcwd()\<close> would return is the parameter \<open>cwd\<close>.
\<close>

definition abspath :: "string \<Rightarrow> string \<Rightarrow> string" where
  "abspath cwd path =
     normpath (if \<not> isabs path then path_join cwd path else path)"

section \<open>The module's constants\<close>

text \<open>
  The module-level names of \<^verbatim>\<open>scripts/__init__.py\<close>, as one record. The private
  name \<^verbatim>\<open>__self_dir\<close> is the field \<open>self_dir\<close>.
\<close>

record module_globals =
  self_dir :: string
  MMT_VERSION :: string
  MMT_ROOT :: string
  ENGINES_DIR :: string
  RUNTIME_DIR :: string
  OPT_DIR :: string
  LIB_DIR :: string
  BUILD_DIR :: string
  BIN_DIR :: string
  MMT_JAR :: string
  MMT_LIBS :: string

text \<open>
  Executing the module body (lines 5 to 19). \<^verbatim>\<open>os.path.realpath(__file__)\<close> asks the
  file system; its result, the symlink-resolved path of the module's file, is the
  parameter \<open>realfile\<close>. The assignments are taken in the order of the source, each
  reading the names bound before it.
\<close>

definition module_init :: "string \<Rightarrow> string \<Rightarrow> module_globals" where
  "module_init realfile cwd =
     (let self_dir_v = dirname realfile;
          version = ''0.11.1'';
          root = abspath cwd (path_join self_dir_v pardir);
          engines_dir = path_join root ''engines'';
          runtime_dir = path_join root ''runtime'';
          opt_dir = path_join root ''opt'';
          lib_dir = path_join root ''lib'';
          build_dir = path_join root ''build'';
          bin_dir = path_join opt_dir ''bin'';
          mmt_jar = path_join build_dir (''mmt-'' @ version @ ''.jar'');
          mmt_libs = build_dir
      in \<lparr> self_dir = self_dir_v, MMT_VERSION = version, MMT_ROOT = root,
           ENGINES_DIR = engines_dir, RUNTIME_DIR = runtime_dir, OPT_DIR = opt_dir,
           LIB_DIR = lib_dir, BUILD_DIR = build_dir, BIN_DIR = bin_dir,
           MMT_JAR = mmt_jar, MMT_LIBS = mmt_libs \<rparr>)"

section \<open>The command builder, on values\<close>

text \<open>
  \<^verbatim>\<open>
  def mmt_javamain(main_class, args=None):
      command = ['java', '-cp', MMT_JAR, '-Dmmt.home=' + MMT_ROOT,
                 '-Djava.library.path=' + MMT_LIBS, main_class]
      if args is not None:
          command += args
      return command
  \<close>
  The function reads the module's names when it is called, so the record of globals
  is its first argument. An argument left out is \<open>None\<close>, the default of the source.
\<close>

definition mmt_javamain :: "module_globals \<Rightarrow> string \<Rightarrow> string list option \<Rightarrow> string list" where
  "mmt_javamain g main_class args =
     (let command = [''java'', ''-cp'', MMT_JAR g, ''-Dmmt.home='' @ MMT_ROOT g,
                     ''-Djava.library.path='' @ MMT_LIBS g, main_class]
      in case args of
           None \<Rightarrow> command
         | Some xs \<Rightarrow> command @ xs)"

section \<open>The command builder, on objects\<close>

text \<open>
  A Python list is a mutable object and \<^verbatim>\<open>command += args\<close> extends \<^verbatim>\<open>command\<close> in
  place, so what a call does to its argument and to the lists of earlier calls is a
  matter of the store. Lists live in a store, addressed by natural numbers; the addresses
  below \<open>next_addr\<close> are the ones in use. The caller can pass any value: \<open>pyval\<close> has
  \<^verbatim>\<open>None\<close>, strings, integers (a value that cannot be iterated) and references to lists.
\<close>

type_synonym addr = nat

datatype pyval = PyNone | PyStr string | PyInt int | PyList addr

datatype py_error = TypeError

datatype io_event = Realpath string | Getcwd

record pystate =
  heap :: "addr \<Rightarrow> pyval list"
  next_addr :: addr
  globals :: module_globals
  io_log :: "io_event list"

text \<open>
  Importing the module: \<^verbatim>\<open>os.path.realpath(__file__)\<close> is the one call that reads the
  file system, and \<^verbatim>\<open>os.path.abspath\<close> asks for the working directory when its argument
  is not absolute. \<open>file\<close> is \<^verbatim>\<open>__file__\<close>, \<open>realfile\<close> what \<^verbatim>\<open>realpath\<close> returns for it.
\<close>

definition import_module :: "string \<Rightarrow> string \<Rightarrow> string \<Rightarrow> pystate" where
  "import_module file realfile cwd =
     \<lparr> heap = (\<lambda>_. []), next_addr = 0, globals = module_init realfile cwd,
       io_log = Realpath file #
         (if isabs (path_join (dirname realfile) pardir) then [] else [Getcwd]) \<rparr>"

text \<open>A list display \<^verbatim>\<open>[...]\<close> creates a new list object.\<close>

definition list_new :: "pyval list \<Rightarrow> pystate \<Rightarrow> addr \<times> pystate" where
  "list_new xs s =
     (next_addr s, s\<lparr> heap := (heap s)(next_addr s := xs), next_addr := Suc (next_addr s) \<rparr>)"

text \<open>
  What iterating over a value yields: the elements of a list, the one-character strings
  of a string; \<^verbatim>\<open>None\<close> and integers are not iterable.
\<close>

definition py_iter :: "pystate \<Rightarrow> pyval \<Rightarrow> py_error + pyval list" where
  "py_iter s v =
     (case v of
        PyList a \<Rightarrow> Inr (heap s a)
      | PyStr cs \<Rightarrow> Inr (map (\<lambda>c. PyStr [c]) cs)
      | PyInt _ \<Rightarrow> Inl TypeError
      | PyNone \<Rightarrow> Inl TypeError)"

text \<open>
  The function of lines 22 to 28 with its effects: the list display allocates
  \<^verbatim>\<open>command\<close>, the test is \<^verbatim>\<open>args is not None\<close>, and \<^verbatim>\<open>command += args\<close> appends to
  the object \<^verbatim>\<open>command\<close> what iterating over \<^verbatim>\<open>args\<close> yields, or raises \<^verbatim>\<open>TypeError\<close>.
  The result is the reference to \<^verbatim>\<open>command\<close>, or the exception.
\<close>

definition mmt_javamain_exec :: "pyval \<Rightarrow> pyval \<Rightarrow> pystate \<Rightarrow> (py_error + pyval) \<times> pystate" where
  "mmt_javamain_exec main_class args s =
     (let g = globals s;
          (command, s1) =
             list_new [PyStr ''java'', PyStr ''-cp'', PyStr (MMT_JAR g),
                       PyStr (''-Dmmt.home='' @ MMT_ROOT g),
                       PyStr (''-Djava.library.path='' @ MMT_LIBS g), main_class] s
      in if args \<noteq> PyNone
         then (case py_iter s1 args of
                 Inl e \<Rightarrow> (Inl e, s1)
               | Inr xs \<Rightarrow>
                   (Inr (PyList command),
                    s1\<lparr> heap := (heap s1)(command := heap s1 command @ xs) \<rparr>))
         else (Inr (PyList command), s1))"

text \<open>A run of the process: the module's function called any number of times.\<close>

fun run_calls :: "(pyval \<times> pyval) list \<Rightarrow> pystate \<Rightarrow> pystate" where
  "run_calls [] s = s"
| "run_calls ((main_class, args) # cs) s = run_calls cs (snd (mmt_javamain_exec main_class args s))"

text \<open>
  The interface of the function: a string for the main class, a list of strings or
  nothing for the arguments. \<open>str_list s a\<close> reads the list at \<open>a\<close> as strings.
\<close>

definition is_str :: "pyval \<Rightarrow> bool" where
  "is_str v = (case v of PyStr _ \<Rightarrow> True | _ \<Rightarrow> False)"

definition args_in_interface :: "pystate \<Rightarrow> pyval \<Rightarrow> bool" where
  "args_in_interface s v =
     (case v of
        PyNone \<Rightarrow> True
      | PyList a \<Rightarrow> a < next_addr s \<and> list_all is_str (heap s a)
      | _ \<Rightarrow> False)"

text \<open>
  The strings of a list of the interface, and the arguments of a call as the value-level
  function takes them.
\<close>

fun the_str :: "pyval \<Rightarrow> string" where
  "the_str (PyStr x) = x"
| "the_str _ = []"

definition args_value :: "pystate \<Rightarrow> pyval \<Rightarrow> string list option" where
  "args_value s v = (case v of PyList a \<Rightarrow> Some (map the_str (heap s a)) | _ \<Rightarrow> None)"

section \<open>Anchors\<close>

text \<open>
  \<^verbatim>\<open>posixpath.realpath\<close> ends with \<^verbatim>\<open>return abspath(path)\<close>: what it returns is
  absolute and is left as it is by \<^verbatim>\<open>normpath\<close>. These are the valid anchors.
\<close>

definition valid_anchor :: "string \<Rightarrow> bool" where
  "valid_anchor p = (isabs p \<and> normpath p = p)"

text \<open>
  A proper path component: not empty, neither \<^verbatim>\<open>.\<close> nor \<^verbatim>\<open>..\<close>, and without a separator.
  \<open>rooted k cs\<close> is the path of \<open>k\<close> leading separators followed by the components \<open>cs\<close>.
\<close>

definition is_name :: "string \<Rightarrow> bool" where
  "is_name c = (c \<noteq> [] \<and> c \<noteq> curdir \<and> c \<noteq> pardir \<and> sep \<notin> set c)"

definition rooted :: "nat \<Rightarrow> string list \<Rightarrow> string" where
  "rooted k cs = replicate k sep @ sep_join cs"

text \<open>The path constants the module exposes, in the order of the source.\<close>

definition exposed_paths :: "module_globals \<Rightarrow> string list" where
  "exposed_paths g =
     [MMT_ROOT g, ENGINES_DIR g, RUNTIME_DIR g, OPT_DIR g, LIB_DIR g, BUILD_DIR g,
      BIN_DIR g, MMT_JAR g, MMT_LIBS g]"

section \<open>Observing calls\<close>

text \<open>
  What a caller sees of a call: the exception, or the elements of the value returned,
  read in the state the call leaves.
\<close>

definition returned_list :: "(py_error + pyval) \<times> pystate \<Rightarrow> py_error + pyval list" where
  "returned_list res = (case fst res of Inl e \<Rightarrow> Inl e | Inr v \<Rightarrow> py_iter (snd res) v)"

text \<open>
  Two calls have element-wise equal arguments when both leave \<^verbatim>\<open>args\<close> out, or both
  pass a list in use, with the same elements (the two lists need not be one object).
\<close>

definition same_inputs :: "pystate \<Rightarrow> pyval \<Rightarrow> pystate \<Rightarrow> pyval \<Rightarrow> bool" where
  "same_inputs s1 args1 s2 args2 =
     (case (args1, args2) of
        (PyNone, PyNone) \<Rightarrow> True
      | (PyList a1, PyList a2) \<Rightarrow>
          a1 < next_addr s1 \<and> a2 < next_addr s2 \<and> heap s1 a1 = heap s2 a2
      | _ \<Rightarrow> False)"

section \<open>Facts about the path functions\<close>

lemma split_sep_not_Nil [simp]: "split_sep s \<noteq> []"
  by (induction s) auto

lemma split_sep_append: "split_sep (a @ sep # b) = split_sep a @ split_sep b"
  by (induction a) (auto simp: hd_append)

lemma split_sep_no_sep: "sep \<notin> set s \<Longrightarrow> split_sep s = [s]"
  by (induction s) auto

lemma split_sep_elems: "c \<in> set (split_sep s) \<Longrightarrow> sep \<notin> set c"
proof (induction s arbitrary: c)
  case Nil
  then show ?case by simp
next
  case (Cons x xs)
  show ?case
  proof (cases "x = sep")
    case True
    with Cons show ?thesis by auto
  next
    case False
    have ne: "split_sep xs \<noteq> []" by simp
    from Cons.prems False have "c = x # hd (split_sep xs) \<or> c \<in> set (tl (split_sep xs))"
      by simp
    then show ?thesis
    proof
      assume "c = x # hd (split_sep xs)"
      moreover have "sep \<notin> set (hd (split_sep xs))"
        using Cons.IH [of "hd (split_sep xs)"] ne by simp
      ultimately show ?thesis using False by auto
    next
      assume "c \<in> set (tl (split_sep xs))"
      then have "c \<in> set (split_sep xs)" using ne by (meson list.set_sel(2))
      then show ?thesis by (rule Cons.IH)
    qed
  qed
qed

lemma sep_join_snoc: "sep_join (cs @ [x]) = (if cs = [] then x else sep_join cs @ sep # x)"
  by (induction cs rule: sep_join.induct) auto

lemma split_sep_sep_join:
  "cs \<noteq> [] \<Longrightarrow> \<forall>c \<in> set cs. sep \<notin> set c \<Longrightarrow> split_sep (sep_join cs) = cs"
proof (induction cs rule: sep_join.induct)
  case 1
  then show ?case by simp
next
  case (2 x)
  then show ?case by (simp add: split_sep_no_sep)
next
  case (3 x y ys)
  then show ?case by (simp add: split_sep_append split_sep_no_sep)
qed


lemma is_name_no_sep: "is_name c \<Longrightarrow> sep \<notin> set c"
  by (simp add: is_name_def)

lemma normpath_step_name:
  "is_name c \<Longrightarrow> normpath_step k acc c = acc @ [c]"
  by (simp add: normpath_step_def is_name_def)

lemma normpath_step_empty: "normpath_step k acc [] = acc"
  by (simp add: normpath_step_def)

lemma normpath_step_pardir:
  "k \<noteq> 0 \<Longrightarrow> list_all is_name acc \<Longrightarrow> normpath_step k acc pardir = butlast acc"
proof (cases "acc = []")
  case True
  assume "k \<noteq> 0"
  with True show ?thesis by (simp add: normpath_step_def pardir_def curdir_def)
next
  case False
  assume "k \<noteq> 0" and names: "list_all is_name acc"
  from False names have "is_name (last acc)" by (simp add: list_all_iff)
  then have "last acc \<noteq> pardir" by (simp add: is_name_def)
  with False \<open>k \<noteq> 0\<close> show ?thesis by (simp add: normpath_step_def pardir_def curdir_def)
qed

lemma foldl_normpath_step_names:
  "list_all is_name cs \<Longrightarrow> foldl (normpath_step k) acc cs = acc @ cs"
  by (induction cs arbitrary: acc) (simp_all add: normpath_step_name)

lemma foldl_normpath_step_empties:
  "foldl (normpath_step k) acc (replicate n []) = acc"
  by (induction n) (simp_all add: normpath_step_empty)

lemma normpath_step_keeps_names:
  assumes "k \<noteq> 0" and "list_all is_name acc" and "sep \<notin> set c"
  shows "list_all is_name (normpath_step k acc c)"
proof -
  consider "c = [] \<or> c = curdir" | "c = pardir" | "is_name c"
    using assms(3) by (auto simp: is_name_def)
  then show ?thesis
  proof cases
    case 1
    then show ?thesis using assms(2) by (auto simp: normpath_step_def)
  next
    case 2
    have "list_all is_name (butlast acc)"
      using assms(2) by (auto simp: list_all_iff dest: in_set_butlastD)
    then show ?thesis using 2 assms(1,2) by (simp add: normpath_step_pardir)
  next
    case 3
    then show ?thesis using assms(2) by (simp add: normpath_step_name)
  qed
qed

lemma foldl_normpath_step_keeps_names:
  "k \<noteq> 0 \<Longrightarrow> list_all is_name acc \<Longrightarrow> \<forall>c \<in> set cs. sep \<notin> set c \<Longrightarrow>
   list_all is_name (foldl (normpath_step k) acc cs)"
  by (induction cs arbitrary: acc) (simp_all add: normpath_step_keeps_names)


lemma initial_slashes_of_abs: "isabs p \<Longrightarrow> initial_slashes_of p = 1 \<or> initial_slashes_of p = 2"
  by (simp add: initial_slashes_of_def isabs_def)

lemma initial_slashes_of_replicate:
  assumes "k = 1 \<or> k = 2" and "t = [] \<or> hd t \<noteq> sep"
  shows "initial_slashes_of (replicate k sep @ t) = k"
proof (cases t)
  case Nil
  with assms(1) show ?thesis
    by (auto simp: initial_slashes_of_def startswith_def numeral_2_eq_2)
next
  case (Cons x xs)
  with assms(2) have "x \<noteq> sep" by simp
  with Cons assms(1) show ?thesis
    by (auto simp: initial_slashes_of_def startswith_def numeral_2_eq_2)
qed

lemma split_sep_replicate:
  "split_sep (replicate k sep @ t) = replicate k [] @ split_sep t"
  by (induction k) simp_all

lemma sep_join_names_hd:
  "list_all is_name cs \<Longrightarrow> sep_join cs = [] \<or> hd (sep_join cs) \<noteq> sep"
proof (induction cs rule: sep_join.induct)
  case 1
  then show ?case by simp
next
  case (2 x)
  then show ?case by (cases x) (auto simp: is_name_def)
next
  case (3 x y ys)
  then show ?case by (cases x) (auto simp: is_name_def)
qed

lemma split_sep_rooted:
  assumes "list_all is_name cs"
  shows "split_sep (rooted k cs) = replicate k [] @ (if cs = [] then [[]] else cs)"
proof -
  have "split_sep (sep_join cs) = (if cs = [] then [[]] else cs)"
    using assms by (auto simp: split_sep_sep_join list_all_iff is_name_def)
  then show ?thesis by (simp add: rooted_def split_sep_replicate)
qed

lemma foldl_normpath_step_rooted:
  assumes "list_all is_name cs"
  shows "foldl (normpath_step k) [] (split_sep (rooted j cs)) = cs"
proof -
  have "foldl (normpath_step k) [] (if cs = [] then [[]] else cs) = cs"
    using assms by (simp add: foldl_normpath_step_names normpath_step_empty)
  then show ?thesis
    using assms by (simp add: split_sep_rooted foldl_normpath_step_empties)
qed

lemma rooted_not_Nil: "k \<noteq> 0 \<Longrightarrow> rooted k cs \<noteq> []"
  by (cases k) (simp_all add: rooted_def)

lemma initial_slashes_of_rooted:
  "k = 1 \<or> k = 2 \<Longrightarrow> list_all is_name cs \<Longrightarrow> initial_slashes_of (rooted k cs) = k"
  unfolding rooted_def by (rule initial_slashes_of_replicate) (simp_all add: sep_join_names_hd)

lemma normpath_rooted:
  assumes k: "k = 1 \<or> k = 2" and names: "list_all is_name cs"
  shows "normpath (rooted k cs) = rooted k cs"
proof -
  have ne: "rooted k cs \<noteq> []" using k by (auto simp: rooted_not_Nil)
  have "normpath (rooted k cs) = replicate k sep @ sep_join cs"
    using ne k names
    by (auto simp: normpath_def Let_def initial_slashes_of_rooted foldl_normpath_step_rooted)
  then show ?thesis by (simp add: rooted_def)
qed

lemma isabs_rooted: "k \<noteq> 0 \<Longrightarrow> isabs (rooted k cs)"
  by (cases k) (simp_all add: rooted_def isabs_def startswith_def)

lemma valid_anchor_rooted:
  "k = 1 \<or> k = 2 \<Longrightarrow> list_all is_name cs \<Longrightarrow> valid_anchor (rooted k cs)"
  by (auto simp: valid_anchor_def normpath_rooted isabs_rooted)

lemma valid_anchor_is_rooted:
  assumes "valid_anchor p"
  obtains k cs where "k = 1 \<or> k = 2" and "list_all is_name cs" and "p = rooted k cs"
proof -
  from assms have pabs: "isabs p" and pfix: "normpath p = p"
    by (simp_all add: valid_anchor_def)
  define k where "k = initial_slashes_of p"
  define cs where "cs = foldl (normpath_step k) [] (split_sep p)"
  have k: "k = 1 \<or> k = 2" unfolding k_def using pabs by (rule initial_slashes_of_abs)
  then have k0: "k \<noteq> 0" by auto
  have names: "list_all is_name cs"
    unfolding cs_def
    by (rule foldl_normpath_step_keeps_names [OF k0]) (auto dest: split_sep_elems)
  have ne: "p \<noteq> []" using pabs by (auto simp: isabs_def startswith_def)
  have "normpath p = rooted k cs"
    using ne k0 by (auto simp: normpath_def Let_def k_def [symmetric] cs_def [symmetric] rooted_def)
  with pfix have "p = rooted k cs" by simp
  with k names show ?thesis by (rule that)
qed


lemma take_rfind:
  "take (nat (rfind sep p + 1)) p = rev (dropWhile (\<lambda>x. x \<noteq> sep) (rev p))"
proof -
  let ?d = "dropWhile (\<lambda>x. x \<noteq> sep) (rev p)" and ?t = "takeWhile (\<lambda>x. x \<noteq> sep) (rev p)"
  have "rev p = ?t @ ?d" by simp
  then have "p = rev ?d @ rev ?t" by (metis rev_append rev_rev_ident)
  then have "take (length (rev ?d)) p = rev ?d" by (metis append_eq_conv_conj)
  then show ?thesis by (simp add: rfind_def)
qed

lemma dirname_head:
  "dirname p =
     (let head = rev (dropWhile (\<lambda>x. x \<noteq> sep) (rev p))
      in if head \<noteq> [] \<and> head \<noteq> replicate (length head) sep then rstrip_sep head else head)"
  by (simp only: dirname_def Let_def take_rfind)

lemma head_last_component:
  assumes "sep \<notin> set b"
  shows "rev (dropWhile (\<lambda>x. x \<noteq> sep) (rev (a @ sep # b))) = a @ [sep]"
proof -
  have "dropWhile (\<lambda>x. x \<noteq> sep) (rev b @ sep # rev a) = dropWhile (\<lambda>x. x \<noteq> sep) (sep # rev a)"
    by (rule dropWhile_append2) (use assms in auto)
  then show ?thesis by simp
qed

lemma head_all_seps:
  "rev (dropWhile (\<lambda>x. x \<noteq> sep) (rev (replicate k sep))) = replicate k sep"
proof -
  have "dropWhile (\<lambda>x. x \<noteq> sep) (replicate k sep) = replicate k sep"
    by (cases k) simp_all
  then show ?thesis by (simp only: rev_replicate)
qed

lemma rstrip_sep_replicate:
  assumes "t \<noteq> []" and "last t \<noteq> sep"
  shows "rstrip_sep (t @ replicate n sep) = t"
proof -
  have "dropWhile (\<lambda>x. x = sep) (replicate n sep @ rev t) = dropWhile (\<lambda>x. x = sep) (rev t)"
    by (induction n) simp_all
  moreover have "dropWhile (\<lambda>x. x = sep) (rev t) = rev t"
    using assms by (cases "rev t") (auto simp: last_rev hd_rev)
  ultimately show ?thesis by (simp add: rstrip_sep_def)
qed

lemma sep_join_names_last:
  "list_all is_name cs \<Longrightarrow> cs \<noteq> [] \<Longrightarrow> sep_join cs \<noteq> [] \<and> last (sep_join cs) \<noteq> sep"
proof (induction cs rule: sep_join.induct)
  case 1
  then show ?case by simp
next
  case (2 x)
  then have "x \<noteq> []" and "sep \<notin> set x" by (simp_all add: is_name_def)
  then show ?case by (metis last_in_set sep_join.simps(2))
next
  case (3 x y ys)
  then show ?case by simp
qed

lemma dirname_rooted:
  assumes k: "k \<noteq> 0" and names: "list_all is_name cs"
  shows "dirname (rooted k cs) = rooted k (butlast cs)"
proof (cases cs rule: rev_cases)
  case Nil
  then show ?thesis by (simp add: dirname_head rooted_def Let_def head_all_seps)
next
  case (snoc ys x)
  from names snoc have x: "sep \<notin> set x" and ys: "list_all is_name ys"
    by (simp_all add: is_name_def)
  show ?thesis
  proof (cases "ys = []")
    case True
    obtain j where j: "k = Suc j" using k by (cases k) auto
    have "rooted k cs = replicate j sep @ sep # x"
      using snoc True by (simp add: rooted_def j replicate_append_same)
    then have "rev (dropWhile (\<lambda>x. x \<noteq> sep) (rev (rooted k cs))) = replicate j sep @ [sep]"
      by (simp only: head_last_component [OF x])
    then have "rev (dropWhile (\<lambda>x. x \<noteq> sep) (rev (rooted k cs))) = replicate k sep"
      by (simp add: j replicate_append_same)
    then show ?thesis using snoc True by (simp add: dirname_head Let_def rooted_def)
  next
    case False
    let ?t = "replicate k sep @ sep_join ys"
    have "rooted k cs = ?t @ sep # x"
      using snoc False by (simp add: rooted_def sep_join_snoc)
    then have head: "rev (dropWhile (\<lambda>x. x \<noteq> sep) (rev (rooted k cs))) = ?t @ [sep]"
      by (simp only: head_last_component [OF x])
    from ys False have j: "sep_join ys \<noteq> []" "last (sep_join ys) \<noteq> sep"
      by (simp_all add: sep_join_names_last)
    from ys False have "hd (sep_join ys) \<noteq> sep"
      using sep_join_names_hd j(1) by blast
    then have "hd (sep_join ys) \<in> set (?t @ [sep])" "hd (sep_join ys) \<noteq> sep"
      using j(1) by simp_all
    then have notall: "?t @ [sep] \<noteq> replicate (length (?t @ [sep])) sep"
      by (metis in_set_replicate)
    have "rstrip_sep (?t @ replicate 1 sep) = ?t"
      by (rule rstrip_sep_replicate) (use j in simp_all)
    then have "rstrip_sep (?t @ [sep]) = ?t" by simp
    with head notall have "dirname (rooted k cs) = ?t"
      by (simp add: dirname_head Let_def)
    then show ?thesis using snoc by (simp add: rooted_def)
  qed
qed


lemma endswith_sep_rooted:
  "k \<noteq> 0 \<Longrightarrow> list_all is_name cs \<Longrightarrow> endswith_sep (rooted k cs) = (cs = [])"
proof (cases "cs = []")
  case True
  assume "k \<noteq> 0"
  with True show ?thesis by (cases k) (simp_all add: endswith_sep_def rooted_def)
next
  case False
  assume "list_all is_name cs"
  with False have "sep_join cs \<noteq> []" "last (sep_join cs) \<noteq> sep"
    by (simp_all add: sep_join_names_last)
  with False show ?thesis by (simp add: endswith_sep_def rooted_def)
qed

lemma path_join_rooted_pardir:
  assumes "k \<noteq> 0" and "list_all is_name cs"
  shows "path_join (rooted k cs) pardir = rooted k (cs @ [pardir])"
proof -
  have "\<not> startswith pardir [sep]" by (simp add: startswith_def pardir_def sep_def)
  moreover have "rooted k cs \<noteq> []" using assms(1) by (rule rooted_not_Nil)
  moreover have "endswith_sep (rooted k cs) = (cs = [])" using assms by (rule endswith_sep_rooted)
  ultimately have "path_join (rooted k cs) pardir
      = (if cs = [] then rooted k cs @ pardir else rooted k cs @ [sep] @ pardir)"
    by (simp add: path_join_def)
  then show ?thesis by (simp add: sep_join_snoc rooted_def)
qed

lemma normpath_rooted_pardir:
  assumes k: "k = 1 \<or> k = 2" and names: "list_all is_name cs"
  shows "normpath (rooted k (cs @ [pardir])) = rooted k (butlast cs)"
proof -
  from k have k0: "k \<noteq> 0" by auto
  have nosep: "\<forall>c \<in> set (cs @ [pardir]). sep \<notin> set c"
    using names by (auto simp: list_all_iff is_name_def pardir_def sep_def)
  have hd: "sep_join (cs @ [pardir]) = [] \<or> hd (sep_join (cs @ [pardir])) \<noteq> sep"
  proof (cases "cs = []")
    case True
    then show ?thesis by (simp add: pardir_def sep_def)
  next
    case False
    with names have "sep_join cs \<noteq> []" by (simp add: sep_join_names_last)
    moreover from names have "sep_join cs = [] \<or> hd (sep_join cs) \<noteq> sep"
      by (rule sep_join_names_hd)
    ultimately show ?thesis using False by (simp add: sep_join_snoc)
  qed
  have init: "initial_slashes_of (rooted k (cs @ [pardir])) = k"
    unfolding rooted_def using k hd by (rule initial_slashes_of_replicate)
  have "split_sep (rooted k (cs @ [pardir])) = replicate k [] @ cs @ [pardir]"
    using nosep by (simp add: rooted_def split_sep_replicate split_sep_sep_join)
  then have "foldl (normpath_step k) [] (split_sep (rooted k (cs @ [pardir])))
      = normpath_step k (foldl (normpath_step k) [] cs) pardir"
    by (simp add: foldl_normpath_step_empties)
  also have "\<dots> = butlast cs"
    using k0 names by (simp add: foldl_normpath_step_names normpath_step_pardir)
  finally have loop: "foldl (normpath_step k) [] (split_sep (rooted k (cs @ [pardir]))) = butlast cs" .
  have ne: "rooted k (cs @ [pardir]) \<noteq> []" using k0 by (rule rooted_not_Nil)
  have "normpath (rooted k (cs @ [pardir])) = replicate k sep @ sep_join (butlast cs)"
    using ne k0 by (auto simp: normpath_def Let_def init loop)
  then show ?thesis by (simp add: rooted_def)
qed

lemma list_all_butlast: "list_all P xs \<Longrightarrow> list_all P (butlast xs)"
  by (auto simp: list_all_iff dest: in_set_butlastD)

lemma parent_rooted:
  assumes k: "k = 1 \<or> k = 2" and names: "list_all is_name cs"
  shows "abspath cwd (path_join (rooted k cs) pardir) = rooted k (butlast cs)"
proof -
  from k have k0: "k \<noteq> 0" by auto
  have "isabs (rooted k (cs @ [pardir]))" using k0 by (rule isabs_rooted)
  then show ?thesis
    using k names by (simp add: abspath_def path_join_rooted_pardir [OF k0] normpath_rooted_pardir)
qed

lemma MMT_ROOT_rooted:
  assumes k: "k = 1 \<or> k = 2" and names: "list_all is_name cs"
  shows "MMT_ROOT (module_init (rooted k cs) cwd) = rooted k (butlast (butlast cs))"
proof -
  from k have k0: "k \<noteq> 0" by auto
  have "MMT_ROOT (module_init (rooted k cs) cwd)
      = abspath cwd (path_join (dirname (rooted k cs)) pardir)"
    by (simp add: module_init_def Let_def)
  also have "\<dots> = abspath cwd (path_join (rooted k (butlast cs)) pardir)"
    using k0 names by (simp add: dirname_rooted)
  also have "\<dots> = rooted k (butlast (butlast cs))"
    using k names by (simp add: parent_rooted list_all_butlast)
  finally show ?thesis .
qed

lemma MMT_ROOT_valid_anchor:
  assumes "valid_anchor p"
  shows "MMT_ROOT (module_init p cwd) = dirname (dirname p) \<and> valid_anchor (MMT_ROOT (module_init p cwd))"
proof -
  from assms obtain k cs where k: "k = 1 \<or> k = 2" and names: "list_all is_name cs"
    and p: "p = rooted k cs"
    by (rule valid_anchor_is_rooted)
  from k have k0: "k \<noteq> 0" by auto
  have "dirname (dirname p) = rooted k (butlast (butlast cs))"
    using k0 names by (simp add: p dirname_rooted list_all_butlast)
  moreover have "valid_anchor (rooted k (butlast (butlast cs)))"
    using k names by (simp add: valid_anchor_rooted list_all_butlast)
  ultimately show ?thesis using k names by (simp add: p MMT_ROOT_rooted)
qed

lemma module_init_cwd_independent:
  assumes "valid_anchor p"
  shows "module_init p cwd = module_init p cwd'"
proof -
  from assms obtain k cs where k: "k = 1 \<or> k = 2" and names: "list_all is_name cs"
    and p: "p = rooted k cs"
    by (rule valid_anchor_is_rooted)
  from k have k0: "k \<noteq> 0" by auto
  have "abspath cwd (path_join (dirname p) pardir) = abspath cwd' (path_join (dirname p) pardir)"
    using k k0 names by (simp add: p dirname_rooted parent_rooted list_all_butlast)
  then show ?thesis by (simp add: module_init_def Let_def)
qed

lemma isabs_path_join: "isabs a \<Longrightarrow> isabs (path_join a b)"
  by (cases a) (auto simp: isabs_def path_join_def startswith_def)

section \<open>Properties\<close>

text \<open>
  Claim C1. Called with the main class \<^verbatim>\<open>com.example.Main\<close> and no second argument,
  \<open>mmt_javamain\<close> returns exactly the six strings \<^verbatim>\<open>java\<close>, \<^verbatim>\<open>-cp\<close>, the jar path,
  \<^verbatim>\<open>-Dmmt.home=\<close> followed by the root, \<^verbatim>\<open>-Djava.library.path=\<close> followed by the
  library path, and the main class, in this order, whatever the module's constants are.
\<close>

theorem mmt_javamain_example_no_args:
  "mmt_javamain g ''com.example.Main'' None =
     [''java'', ''-cp'', MMT_JAR g, ''-Dmmt.home='' @ MMT_ROOT g,
      ''-Djava.library.path='' @ MMT_LIBS g, ''com.example.Main'']
   \<and> length (mmt_javamain g ''com.example.Main'' None) = 6"
  by (simp add: mmt_javamain_def)

end
